theory Spec2Isabelle
  imports Main "HOL-Library.AList"
begin

section \<open>Values, errors and the world around the agent\<close>

text \<open>
  The agent keeps its tasks as whatever \<^verbatim>\<open>json.load\<close> returned: Python dicts, lists,
  strings, ints, booleans and \<^verbatim>\<open>None\<close>. A dict is an association list in insertion
  order. JSON numbers are Python ints here; a number with a fraction or an exponent is a
  floating-point value and has no counterpart in this type.
\<close>

datatype json =
    JNull
  | JBool bool
  | JInt int
  | JStr string
  | JList "json list"
  | JDict "(string \<times> json) list"

text \<open>The exceptions the two programs can raise, as values.\<close>

datatype error =
    FileNotFoundError
  | PermissionError
  | JSONDecodeError
  | KeyError string
  | TypeError
  | AttributeError
  | APIError

text \<open>
  The file \<^verbatim>\<open>tasks.json\<close> as \<^verbatim>\<open>open(..., 'r')\<close> finds it: missing, present but
  not to be read by the process, or present with some text. Whether the process may
  open it for writing is a separate matter, see \<open>writable\<close> below.
\<close>

datatype document = Absent | Denied | Content string

text \<open>
  What the programs take from libraries and from outside: the \<^verbatim>\<open>json\<close> module
  (\<^verbatim>\<open>json.loads\<close>/\<^verbatim>\<open>json.load\<close>, where \<open>None\<close> stands for a decode error, and
  \<^verbatim>\<open>json.dump\<close>/\<^verbatim>\<open>json.dumps\<close> with \<^verbatim>\<open>indent=2\<close>), \<^verbatim>\<open>str()\<close> as the f-strings
  apply it, \<^verbatim>\<open>datetime.now().isoformat()\<close> at the n-th reading of the clock, and the
  text the program takes out of the provider's response to the n-th request with a
  given prompt (\<^verbatim>\<open>response.choices[0].message.content\<close> in one program,
  \<^verbatim>\<open>message.content[0].text\<close> in the other; \<open>None\<close> when the call or that access
  raises), and whether the operating system lets the process open the file, in the
  condition it is in, for writing (a read-only file and a missing file in a directory
  that takes no new files are not \<open>writable\<close>). They are parameters of every operation
  below, so what is proved of the operations holds whatever these functions return.
\<close>

record env =
  json_loads :: "string \<Rightarrow> json option"
  json_dumps :: "json \<Rightarrow> string"
  py_str :: "json \<Rightarrow> string"
  isoformat_now :: "nat \<Rightarrow> string"
  create :: "nat \<Rightarrow> string \<Rightarrow> string option"
  writable :: "document \<Rightarrow> bool"

text \<open>
  The agent object (\<open>tasks\<close>, \<open>task_history\<close>) together with the part of the world its
  methods touch: the file, the prompts sent to the provider so far, and how often the
  clock has been read.
\<close>

record state =
  tasks :: json
  task_history :: "json list"
  tasks_file :: document
  requests :: "string list"
  ticks :: nat

type_synonym 'a result = "(error + 'a) \<times> state"

definition nl :: string where
  "nl = [CHR 0x0A]"

section \<open>Python's operations on the values\<close>

text \<open>\<^verbatim>\<open>v[k]\<close> with a string key: only a dict can be subscripted so.\<close>

fun getitem :: "json \<Rightarrow> string \<Rightarrow> error + json" where
  "getitem (JDict d) k = (case map_of d k of None \<Rightarrow> Inl (KeyError k) | Some v \<Rightarrow> Inr v)"
| "getitem _ k = Inl TypeError"

text \<open>
  \<^verbatim>\<open>v[k] = x\<close>: an existing key keeps its place, a new key goes to the end. It is only
  reached on values that \<open>getitem\<close> has accepted, so on dicts.
\<close>

fun setitem :: "json \<Rightarrow> string \<Rightarrow> json \<Rightarrow> json" where
  "setitem (JDict d) k x = JDict (AList.update k x d)"
| "setitem v k x = v"

fun py_len :: "json \<Rightarrow> error + nat" where
  "py_len (JList xs) = Inr (length xs)"
| "py_len (JDict d) = Inr (length d)"
| "py_len (JStr s) = Inr (length s)"
| "py_len _ = Inl TypeError"

text \<open>\<^verbatim>\<open>for t in v\<close>: a dict yields its keys, a string its characters.\<close>

fun py_iter :: "json \<Rightarrow> error + json list" where
  "py_iter (JList xs) = Inr xs"
| "py_iter (JDict d) = Inr (map (\<lambda>(k, v). JStr k) d)"
| "py_iter (JStr s) = Inr (map (\<lambda>c. JStr [c]) s)"
| "py_iter _ = Inl TypeError"

fun truthy :: "json \<Rightarrow> bool" where
  "truthy JNull = False"
| "truthy (JBool b) = b"
| "truthy (JInt n) = (n \<noteq> 0)"
| "truthy (JStr s) = (s \<noteq> [])"
| "truthy (JList xs) = (xs \<noteq> [])"
| "truthy (JDict d) = (d \<noteq> [])"

text \<open>\<^verbatim>\<open>v == n\<close> for an int \<open>n\<close>: \<^verbatim>\<open>True == 1\<close> and \<^verbatim>\<open>False == 0\<close> hold in Python.\<close>

fun eq_int :: "json \<Rightarrow> int \<Rightarrow> bool" where
  "eq_int (JInt m) n = (m = n)"
| "eq_int (JBool b) n = ((if b then 1 else 0) = n)"
| "eq_int _ n = False"

fun eq_str :: "json \<Rightarrow> string \<Rightarrow> bool" where
  "eq_str (JStr s) t = (s = t)"
| "eq_str _ t = False"

section \<open>The task store\<close>

fun open_read :: "document \<Rightarrow> error + string" where
  "open_read Absent = Inl FileNotFoundError"
| "open_read Denied = Inl PermissionError"
| "open_read (Content t) = Inr t"

text \<open>\<^verbatim>\<open>load_tasks\<close>: only \<^verbatim>\<open>FileNotFoundError\<close> is caught.\<close>

definition load_tasks :: "env \<Rightarrow> document \<Rightarrow> error + json" where
  "load_tasks e f =
     (case open_read f of
        Inr t \<Rightarrow> (case json_loads e t of None \<Rightarrow> Inl JSONDecodeError | Some v \<Rightarrow> Inr v)
      | Inl FileNotFoundError \<Rightarrow> Inr (JList [])
      | Inl err \<Rightarrow> Inl err)"

text \<open>
  What a later \<^verbatim>\<open>open(..., 'r')\<close> finds once the text \<open>t\<close> has been written: a file that
  the process may write but not read holds the text and still cannot be read.
\<close>

fun overwrite :: "document \<Rightarrow> string \<Rightarrow> document" where
  "overwrite Denied t = Denied"
| "overwrite f t = Content t"

text \<open>
  \<^verbatim>\<open>save_tasks\<close>: \<^verbatim>\<open>open(self.tasks_file, 'w')\<close> raises when the file cannot be opened for
  writing, before anything is written; otherwise the file receives the whole
  collection. Every value of type \<open>json\<close> can be serialised, so \<^verbatim>\<open>json.dump\<close> raises
  nothing here.
\<close>

definition save_tasks :: "env \<Rightarrow> state \<Rightarrow> unit result" where
  "save_tasks e s =
     (if writable e (tasks_file s)
      then (Inr (), s\<lparr>tasks_file := overwrite (tasks_file s) (json_dumps e (tasks s))\<rparr>)
      else (Inl PermissionError, s))"

text \<open>\<^verbatim>\<open>__init__\<close>: the agent as constructed over a file, in a world where \<open>rs\<close> have
  been sent and the clock has been read \<open>n\<close> times.\<close>

definition init :: "env \<Rightarrow> document \<Rightarrow> string list \<Rightarrow> nat \<Rightarrow> error + state" where
  "init e f rs n =
     (case load_tasks e f of
        Inl err \<Rightarrow> Inl err
      | Inr v \<Rightarrow> Inr \<lparr>tasks = v, task_history = [], tasks_file = f, requests = rs, ticks = n\<rparr>)"

section \<open>Talking to the provider\<close>

text \<open>
  The two programs differ in the provider they call and in the key under which they
  expect the estimate in the analysis.
\<close>

datatype binding = OpenAI | Anthropic

fun estimate_key :: "binding \<Rightarrow> string" where
  "estimate_key OpenAI = ''estimated_time''"
| "estimate_key Anthropic = ''estimated_time_to_complete''"

text \<open>One call of \<^verbatim>\<open>create\<close>: the prompt goes out, the text of the answer comes back.\<close>

definition send :: "env \<Rightarrow> string \<Rightarrow> state \<Rightarrow> string result" where
  "send e prompt s =
     (case create e (length (requests s)) prompt of
        None \<Rightarrow> (Inl APIError, s\<lparr>requests := requests s @ [prompt]\<rparr>)
      | Some text \<Rightarrow> (Inr text, s\<lparr>requests := requests s @ [prompt]\<rparr>))"

definition analysis_prompt :: "string \<Rightarrow> string" where
  \<open>analysis_prompt description =
     ''Analyze this task: "'' @ description @ ''"'' @ nl @
     ''        Provide a JSON response with:'' @ nl @
     ''        1. Suggested priority (high/medium/low)'' @ nl @
     ''        2. Estimated time to complete (in hours)'' @ nl @
     ''        3. Category (e.g., development, writing, research)'' @ nl @
     ''        4. Any potential subtasks'' @ nl @
     ''        Base this on the task description and common project management practices.''\<close>

definition analyze_task_description :: "env \<Rightarrow> string \<Rightarrow> state \<Rightarrow> json result" where
  "analyze_task_description e description s =
     (case send e (analysis_prompt description) s of
        (Inl err, s1) \<Rightarrow> (Inl err, s1)
      | (Inr text, s1) \<Rightarrow>
          (case json_loads e text of
             None \<Rightarrow> (Inl JSONDecodeError, s1)
           | Some analysis \<Rightarrow> (Inr analysis, s1)))"

section \<open>Adding a task\<close>

text \<open>
  The dict display of \<^verbatim>\<open>add_task\<close>, its entries evaluated from top to bottom; \<open>n\<close> is
  the new id and \<open>created\<close> the reading of the clock.
\<close>

definition new_task :: "binding \<Rightarrow> int \<Rightarrow> string \<Rightarrow> string \<Rightarrow> json \<Rightarrow> error + json" where
  "new_task b n description created analysis =
     (case getitem analysis ''priority'' of
        Inl err \<Rightarrow> Inl err
      | Inr priority \<Rightarrow>
     (case getitem analysis (estimate_key b) of
        Inl err \<Rightarrow> Inl err
      | Inr hours \<Rightarrow>
     (case getitem analysis ''category'' of
        Inl err \<Rightarrow> Inl err
      | Inr category \<Rightarrow>
     (case getitem analysis ''potential_subtasks'' of
        Inl err \<Rightarrow> Inl err
      | Inr subtasks \<Rightarrow>
          Inr (JDict
            [(''id'', JInt n),
             (''description'', JStr description),
             (''created_at'', JStr created),
             (''priority'', priority),
             (''estimated_hours'', hours),
             (''category'', category),
             (''subtasks'', subtasks),
             (''status'', JStr ''pending'')])))))"

text \<open>
  \<^verbatim>\<open>add_task\<close>. The id is \<^verbatim>\<open>len(self.tasks) + 1\<close>; the clock is read before the analysis
  is looked into; only a list has \<^verbatim>\<open>append\<close>. (The two \<^verbatim>\<open>print\<close> calls of the OpenAI
  program write to the terminal and are left out.)
\<close>

definition add_task :: "binding \<Rightarrow> env \<Rightarrow> string \<Rightarrow> state \<Rightarrow> string result" where
  "add_task b e description s =
     (case analyze_task_description e description s of
        (Inl err, s1) \<Rightarrow> (Inl err, s1)
      | (Inr analysis, s1) \<Rightarrow>
     (case py_len (tasks s1) of
        Inl err \<Rightarrow> (Inl err, s1)
      | Inr n \<Rightarrow>
     (let s2 = s1\<lparr>ticks := Suc (ticks s1)\<rparr> in
      case new_task b (int n + 1) description (isoformat_now e (ticks s1)) analysis of
        Inl err \<Rightarrow> (Inl err, s2)
      | Inr task \<Rightarrow>
     (case tasks s2 of
        JList ts \<Rightarrow>
          (case save_tasks e (s2\<lparr>tasks := JList (ts @ [task])\<rparr>) of
             (Inl err, s3) \<Rightarrow> (Inl err, s3)
           | (Inr u, s3) \<Rightarrow> (Inr (''Added task with AI analysis: '' @ py_str e task), s3))
      | _ \<Rightarrow> (Inl AttributeError, s2)))))"

section \<open>Recommendations and the progress report\<close>

fun map_err :: "('a \<Rightarrow> error + 'b) \<Rightarrow> 'a list \<Rightarrow> error + 'b list" where
  "map_err f [] = Inr []"
| "map_err f (x # xs) =
     (case f x of
        Inl err \<Rightarrow> Inl err
      | Inr y \<Rightarrow> (case map_err f xs of Inl err \<Rightarrow> Inl err | Inr ys \<Rightarrow> Inr (y # ys)))"

fun filter_err :: "('a \<Rightarrow> error + bool) \<Rightarrow> 'a list \<Rightarrow> error + 'a list" where
  "filter_err p [] = Inr []"
| "filter_err p (x # xs) =
     (case p x of
        Inl err \<Rightarrow> Inl err
      | Inr keep \<Rightarrow>
          (case filter_err p xs of
             Inl err \<Rightarrow> Inl err
           | Inr ys \<Rightarrow> Inr (if keep then x # ys else ys)))"

text \<open>\<^verbatim>\<open>sep.join(xs)\<close>.\<close>

fun join :: "'a list \<Rightarrow> 'a list list \<Rightarrow> 'a list" where
  "join sep [] = []"
| "join sep [x] = x"
| "join sep (x # y # ys) = x @ sep @ join sep (y # ys)"

definition task_line :: "env \<Rightarrow> json \<Rightarrow> error + string" where
  "task_line e t =
     (case getitem t ''id'' of
        Inl err \<Rightarrow> Inl err
      | Inr i \<Rightarrow>
     (case getitem t ''description'' of
        Inl err \<Rightarrow> Inl err
      | Inr d \<Rightarrow>
     (case getitem t ''priority'' of
        Inl err \<Rightarrow> Inl err
      | Inr p \<Rightarrow>
     (case getitem t ''status'' of
        Inl err \<Rightarrow> Inl err
      | Inr st \<Rightarrow>
          Inr (''Task '' @ py_str e i @ '': '' @ py_str e d @ '' (Priority: '' @ py_str e p
               @ '', Status: '' @ py_str e st @ '')'')))))"

definition recommendations_prompt :: "string \<Rightarrow> string" where
  "recommendations_prompt tasks_context =
     ''Given these tasks:'' @ nl @
     ''        '' @ tasks_context @ nl @
     ''        '' @ nl @
     ''        Provide recommendations for:'' @ nl @
     ''        1. Which task should be done next and why'' @ nl @
     ''        2. Any tasks that might be related or could be combined'' @ nl @
     ''        3. Suggestions for optimal task scheduling'' @ nl @
     ''        Consider priorities, deadlines, and task relationships in your analysis.''"

definition get_smart_recommendations :: "env \<Rightarrow> state \<Rightarrow> string result" where
  "get_smart_recommendations e s =
     (if \<not> truthy (tasks s) then (Inr ''No tasks available for analysis'', s)
      else
        (case py_iter (tasks s) of
           Inl err \<Rightarrow> (Inl err, s)
         | Inr ts \<Rightarrow>
        (case map_err (task_line e) ts of
           Inl err \<Rightarrow> (Inl err, s)
         | Inr lines \<Rightarrow> send e (recommendations_prompt (join nl lines)) s)))"

definition status_is :: "string \<Rightarrow> json \<Rightarrow> error + bool" where
  "status_is v t =
     (case getitem t ''status'' of Inl err \<Rightarrow> Inl err | Inr st \<Rightarrow> Inr (eq_str st v))"

definition report_context :: "env \<Rightarrow> nat \<Rightarrow> nat \<Rightarrow> json \<Rightarrow> string" where
  "report_context e completed pending ts =
     nl @
     ''        Completed Tasks: '' @ py_str e (JInt (int completed)) @ nl @
     ''        Pending Tasks: '' @ py_str e (JInt (int pending)) @ nl @
     ''        Task Details: '' @ json_dumps e ts @ nl @
     ''        ''"

definition report_prompt :: "string \<Rightarrow> string" where
  "report_prompt context =
     ''Based on this task data:'' @ nl @
     ''        '' @ context @ nl @
     ''        '' @ nl @
     ''        Generate a concise progress report that includes:'' @ nl @
     ''        1. Overall progress summary'' @ nl @
     ''        2. Key achievements'' @ nl @
     ''        3. Areas needing attention'' @ nl @
     ''        4. Suggestions for improving productivity'' @ nl @
     ''        Use a professional but engaging tone.''"

definition generate_progress_report :: "env \<Rightarrow> state \<Rightarrow> string result" where
  "generate_progress_report e s =
     (case py_iter (tasks s) of
        Inl err \<Rightarrow> (Inl err, s)
      | Inr ts \<Rightarrow>
     (case filter_err (status_is ''completed'') ts of
        Inl err \<Rightarrow> (Inl err, s)
      | Inr completed \<Rightarrow>
     (case filter_err (status_is ''pending'') ts of
        Inl err \<Rightarrow> (Inl err, s)
      | Inr pending \<Rightarrow>
          send e (report_prompt
                    (report_context e (length completed) (length pending) (tasks s))) s)))"

section \<open>Completing a task\<close>

text \<open>
  The loop of \<^verbatim>\<open>complete_task\<close>: \<open>seen\<close> are the tasks already passed, in order. The
  first task whose id equals \<open>task_id\<close> is changed in place, the clock is read twice,
  the history grows by one entry, the file is rewritten, and the method returns; the
  tasks after it are not looked at. A task can only match if the collection is a list,
  since the keys of a dict and the characters of a string cannot be subscripted with
  \<^verbatim>\<open>'id'\<close>.
\<close>

definition mark_completed :: "string \<Rightarrow> json \<Rightarrow> json" where
  "mark_completed now task =
     setitem (setitem task ''status'' (JStr ''completed'')) ''completed_at'' (JStr now)"

definition history_entry :: "int \<Rightarrow> string \<Rightarrow> json" where
  "history_entry task_id now =
     JDict [(''action'', JStr ''complete''), (''task_id'', JInt task_id), (''timestamp'', JStr now)]"

fun complete_loop :: "env \<Rightarrow> int \<Rightarrow> json list \<Rightarrow> json list \<Rightarrow> state \<Rightarrow> string result" where
  "complete_loop e task_id seen [] s = (Inr ''Task not found'', s)"
| "complete_loop e task_id seen (task # rest) s =
     (case getitem task ''id'' of
        Inl err \<Rightarrow> (Inl err, s)
      | Inr v \<Rightarrow>
          if eq_int v task_id then
            (let task' = mark_completed (isoformat_now e (ticks s)) task;
                 s1 = s\<lparr>tasks := JList (seen @ task' # rest),
                        task_history :=
                          task_history s @ [history_entry task_id (isoformat_now e (Suc (ticks s)))],
                        ticks := Suc (Suc (ticks s))\<rparr>
             in case save_tasks e s1 of
                  (Inl err, s2) \<Rightarrow> (Inl err, s2)
                | (Inr u, s2) \<Rightarrow>
                    (case getitem task' ''description'' of
                       Inl err \<Rightarrow> (Inl err, s2)
                     | Inr d \<Rightarrow> (Inr (''Completed task: '' @ py_str e d), s2)))
          else complete_loop e task_id (seen @ [task]) rest s)"

definition complete_task :: "env \<Rightarrow> int \<Rightarrow> state \<Rightarrow> string result" where
  "complete_task e task_id s =
     (case py_iter (tasks s) of
        Inl err \<Rightarrow> (Inl err, s)
      | Inr ts \<Rightarrow> complete_loop e task_id [] ts s)"

section \<open>The session\<close>

text \<open>
  The menu loop of \<^verbatim>\<open>main\<close>: each choice calls one method, and an exception is caught,
  reported and followed by the next choice, so the state a failed call leaves behind is
  the state the next call starts from. The listing (choice 2) only reads the tasks and
  is not among the choices here.
\<close>

datatype choice = Add string | Recommend | Report | Complete int

fun dispatch :: "binding \<Rightarrow> env \<Rightarrow> choice \<Rightarrow> state \<Rightarrow> state" where
  "dispatch b e (Add description) s = snd (add_task b e description s)"
| "dispatch b e Recommend s = snd (get_smart_recommendations e s)"
| "dispatch b e Report s = snd (generate_progress_report e s)"
| "dispatch b e (Complete task_id) s = snd (complete_task e task_id s)"

fun main_loop :: "binding \<Rightarrow> env \<Rightarrow> choice list \<Rightarrow> state \<Rightarrow> state" where
  "main_loop b e [] s = s"
| "main_loop b e (c # cs) s = main_loop b e cs (dispatch b e c s)"

section \<open>Vocabulary of the specification\<close>



text \<open>The fields every task has from its creation on, in the order \<^verbatim>\<open>add_task\<close> writes them.\<close>

definition required_keys :: "string list" where
  "required_keys =
     [''id'', ''description'', ''created_at'', ''priority'', ''estimated_hours'',
      ''category'', ''subtasks'', ''status'']"

fun task_record :: "json \<Rightarrow> bool" where
  "task_record (JDict d) = list_all (\<lambda>k. map_of d k \<noteq> None) required_keys"
| "task_record _ = False"

text \<open>The test of the loop in \<^verbatim>\<open>complete_task\<close>, for a task that has an id.\<close>

definition has_id :: "json \<Rightarrow> int \<Rightarrow> bool" where
  "has_id t n = (case getitem t ''id'' of Inl err \<Rightarrow> False | Inr v \<Rightarrow> eq_int v n)"

text \<open>
  The loop of \<^verbatim>\<open>complete_task\<close> stops at index \<open>i\<close>: the task there has the id, and
  every task before it has some other id.
\<close>

definition first_match :: "json list \<Rightarrow> int \<Rightarrow> nat \<Rightarrow> bool" where
  "first_match ts n i =
     (i < length ts \<and> has_id (ts ! i) n
      \<and> list_all (\<lambda>t. case getitem t ''id'' of Inl err \<Rightarrow> False | Inr v \<Rightarrow> \<not> eq_int v n)
            (take i ts))"

definition status_of :: "json \<Rightarrow> error + json" where
  "status_of t = getitem t ''status''"

definition completed_at_of :: "json \<Rightarrow> error + json" where
  "completed_at_of t = getitem t ''completed_at''"

definition ids_of :: "json list \<Rightarrow> (error + json) list" where
  "ids_of ts = map (\<lambda>t. getitem t ''id'') ts"

text \<open>The ids are 1, 2, 3, ... in the order of the collection.\<close>

definition numbered :: "json list \<Rightarrow> bool" where
  "numbered ts = (ids_of ts = map (\<lambda>i. Inr (JInt (int i + 1))) [0..<length ts])"


text \<open>The state of a first run: no file, nothing sent, the clock not yet read.\<close>

definition first_run :: state where
  "first_run = \<lparr>tasks = JList [], task_history = [], tasks_file = Absent, requests = [], ticks = 0\<rparr>"

section \<open>\<^verbatim>\<open>json.dumps\<close> and \<^verbatim>\<open>str()\<close> for concrete runs\<close>

text \<open>
  An instance of two of the library functions, to run the operations on concrete
  inputs: the text \<^verbatim>\<open>json.dumps(v, indent=2)\<close> writes for a value of type \<open>json\<close>, and
  \<^verbatim>\<open>str()\<close>. A character stands for a code point below 256.
\<close>

definition dq :: char where "dq = CHR 0x22"
definition bs :: char where "bs = CHR 0x5C"

definition hex_digit :: "nat \<Rightarrow> char" where
  "hex_digit n = ''0123456789abcdef'' ! (n mod 16)"

definition escape_char :: "char \<Rightarrow> string" where
  "escape_char c =
     (if c = dq then [bs, dq]
      else if c = bs then [bs, bs]
      else if c = CHR 0x0A then [bs, CHR ''n'']
      else if c = CHR 0x0D then [bs, CHR ''r'']
      else if c = CHR 0x09 then [bs, CHR ''t'']
      else if c = CHR 0x08 then [bs, CHR ''b'']
      else if c = CHR 0x0C then [bs, CHR ''f'']
      else if 32 \<le> (of_char c :: nat) \<and> (of_char c :: nat) \<le> 126 then [c]
      else [bs, CHR ''u'', CHR ''0'', CHR ''0'',
            hex_digit (of_char c div 16), hex_digit (of_char c mod 16)])"

definition encode_string :: "string \<Rightarrow> string" where
  "encode_string s = dq # concat (map escape_char s) @ [dq]"

fun digits_of :: "nat \<Rightarrow> string" where
  "digits_of n =
     (if n < 10 then [char_of (48 + n)]
      else digits_of (n div 10) @ [char_of (48 + n mod 10)])"

definition show_int :: "int \<Rightarrow> string" where
  "show_int i = (if i < 0 then CHR ''-'' # digits_of (nat (- i)) else digits_of (nat i))"

definition newline_indent :: "nat \<Rightarrow> string" where
  "newline_indent level = CHR 0x0A # replicate (2 * level) CHR '' ''"

fun encode :: "nat \<Rightarrow> json \<Rightarrow> string" where
  "encode level JNull = ''null''"
| "encode level (JBool b) = (if b then ''true'' else ''false'')"
| "encode level (JInt i) = show_int i"
| "encode level (JStr s) = encode_string s"
| "encode level (JList xs) =
     (if xs = [] then ''[]''
      else ''['' @ newline_indent (Suc level)
           @ join ('','' @ newline_indent (Suc level)) (map (encode (Suc level)) xs)
           @ newline_indent level @ '']'')"
| "encode level (JDict d) =
     (if d = [] then ''{}''
      else ''{'' @ newline_indent (Suc level)
           @ join ('','' @ newline_indent (Suc level))
               (map (\<lambda>(k, v). encode_string k @ '': '' @ encode (Suc level) v) d)
           @ newline_indent level @ ''}'')"

definition dumps :: "json \<Rightarrow> string" where
  "dumps v = encode 0 v"


text \<open>\<^verbatim>\<open>repr()\<close> of a string picks the quote as Python does and escapes what is not printable.\<close>

definition sq :: char where "sq = CHR 0x27"

definition repr_char :: "char \<Rightarrow> char \<Rightarrow> string" where
  "repr_char q c =
     (let n = (of_char c :: nat) in
      if c = bs then [bs, bs]
      else if c = q then [bs, q]
      else if c = CHR 0x09 then [bs, CHR ''t'']
      else if c = CHR 0x0A then [bs, CHR ''n'']
      else if c = CHR 0x0D then [bs, CHR ''r'']
      else if n < 32 \<or> (127 \<le> n \<and> n \<le> 160) \<or> n = 173
        then [bs, CHR ''x'', hex_digit (n div 16), hex_digit (n mod 16)]
      else [c])"

definition repr_string :: "string \<Rightarrow> string" where
  "repr_string s =
     (let q = (if sq \<in> set s \<and> dq \<notin> set s then dq else sq)
      in q # concat (map (repr_char q) s) @ [q])"

fun py_repr :: "json \<Rightarrow> string" where
  "py_repr JNull = ''None''"
| "py_repr (JBool b) = (if b then ''True'' else ''False'')"
| "py_repr (JInt i) = show_int i"
| "py_repr (JStr s) = repr_string s"
| "py_repr (JList xs) = ''['' @ join '', '' (map py_repr xs) @ '']''"
| "py_repr (JDict d) =
     ''{'' @ join '', '' (map (\<lambda>(k, v). repr_string k @ '': '' @ py_repr v) d) @ ''}''"

fun str_of :: "json \<Rightarrow> string" where
  "str_of (JStr s) = s"
| "str_of v = py_repr v"

section \<open>Concrete runs\<close>

text \<open>
  A clock, two answers of a provider and the states of a short session, for running the
  operations on concrete inputs.
\<close>

definition demo_clock :: "nat \<Rightarrow> string" where
  "demo_clock n = ''2024-05-01T10:00:0'' @ digits_of n"

definition demo_reply :: string where
  \<open>demo_reply = ''{"priority": "high", "estimated_time": 2, "category": "writing", "potential_subtasks": ["outline", "draft"]}''\<close>

definition demo_reply_anthropic :: string where
  \<open>demo_reply_anthropic = ''{"priority": "high", "estimated_time_to_complete": 2, "category": "writing", "potential_subtasks": ["outline", "draft"]}''\<close>

definition demo_analysis :: json where
  "demo_analysis = JDict
     [(''priority'', JStr ''high''), (''estimated_time'', JInt 2),
      (''category'', JStr ''writing''),
      (''potential_subtasks'', JList [JStr ''outline'', JStr ''draft''])]"

definition demo_analysis_anthropic :: json where
  "demo_analysis_anthropic = JDict
     [(''priority'', JStr ''high''), (''estimated_time_to_complete'', JInt 2),
      (''category'', JStr ''writing''),
      (''potential_subtasks'', JList [JStr ''outline'', JStr ''draft''])]"


text \<open>
  What \<^verbatim>\<open>json.loads\<close> returns on the texts it is given in these runs: the two answers
  are JSON objects, the prose is not JSON. The runs decode no other text; the table
  says nothing about \<^verbatim>\<open>json.loads\<close> elsewhere and is closed with \<open>None\<close>.
\<close>

definition demo_decode :: "string \<Rightarrow> json option" where
  "demo_decode reply =
     (if reply = demo_reply then Some demo_analysis
      else if reply = demo_reply_anthropic then Some demo_analysis_anthropic
      else None)"

text \<open>
  The environments of the runs: the provider answers every request with the same text,
  and the file can be written (\<open>demo_env\<close>, \<open>prose_env\<close>) or cannot (\<open>locked_env\<close>: the
  directory takes no new file and the file, once there, is read-only).
\<close>

definition demo_env :: env where
  "demo_env =
     \<lparr>json_loads = demo_decode, json_dumps = dumps, py_str = str_of,
      isoformat_now = demo_clock, create = (\<lambda>n prompt. Some demo_reply),
      writable = (\<lambda>f. True)\<rparr>"


definition locked_env :: env where
  "locked_env =
     \<lparr>json_loads = demo_decode, json_dumps = dumps, py_str = str_of,
      isoformat_now = demo_clock, create = (\<lambda>n prompt. Some demo_reply),
      writable = (\<lambda>f. False)\<rparr>"

definition demo_task :: json where
  "demo_task = JDict
     [(''id'', JInt 1), (''description'', JStr ''Write spec''),
      (''created_at'', JStr ''2024-05-01T10:00:00''),
      (''priority'', JStr ''high''), (''estimated_hours'', JInt 2),
      (''category'', JStr ''writing''),
      (''subtasks'', JList [JStr ''outline'', JStr ''draft'']),
      (''status'', JStr ''pending'')]"

definition demo_added :: state where
  "demo_added = main_loop OpenAI demo_env [Add ''Write spec''] first_run"

definition demo_completed :: state where
  "demo_completed = main_loop OpenAI demo_env [Add ''Write spec'', Complete 1] first_run"

definition demo_completed_again :: state where
  "demo_completed_again = dispatch OpenAI demo_env (Complete 1) demo_completed"

text \<open>A store in which an edit of the file has left two tasks with the same id.\<close>

definition twins :: state where
  "twins = \<lparr>tasks = JList [demo_task, demo_task], task_history = [],
            tasks_file = Content (dumps (JList [demo_task, demo_task])),
            requests = [], ticks = 5\<rparr>"

definition demo_review :: json where
  "demo_review = JDict
     [(''id'', JInt 2), (''description'', JStr ''Review''),
      (''created_at'', JStr ''2024-05-01T10:00:01''),
      (''priority'', JStr ''high''), (''estimated_hours'', JInt 2),
      (''category'', JStr ''writing''),
      (''subtasks'', JList [JStr ''outline'', JStr ''draft'']),
      (''status'', JStr ''pending'')]"

definition demo_ship :: json where
  "demo_ship = JDict
     [(''id'', JInt 3), (''description'', JStr ''Ship''),
      (''created_at'', JStr ''2024-05-01T10:00:02''),
      (''priority'', JStr ''high''), (''estimated_hours'', JInt 2),
      (''category'', JStr ''writing''),
      (''subtasks'', JList [JStr ''outline'', JStr ''draft'']),
      (''status'', JStr ''pending'')]"

section \<open>Writing the file and sending a prompt\<close>

lemma save_tasks_opened:
  "writable e (tasks_file s) \<Longrightarrow>
   save_tasks e s
     = (Inr (), s\<lparr>tasks_file := overwrite (tasks_file s) (json_dumps e (tasks s))\<rparr>)"
  by (simp add: save_tasks_def)

lemma save_tasks_refused:
  "\<not> writable e (tasks_file s) \<Longrightarrow> save_tasks e s = (Inl PermissionError, s)"
  by (simp add: save_tasks_def)

lemma save_tasks_keeps:
  "tasks (snd (save_tasks e s)) = tasks s"
  "task_history (snd (save_tasks e s)) = task_history s"
  "requests (snd (save_tasks e s)) = requests s"
  "ticks (snd (save_tasks e s)) = ticks s"
  by (simp_all add: save_tasks_def)

lemma send_state:
  "snd (send e p s) = s\<lparr>requests := requests s @ [p]\<rparr>"
  by (simp add: send_def split: option.splits)

lemma send_result:
  "fst (send e p s) =
     (case create e (length (requests s)) p of None \<Rightarrow> Inl APIError | Some text \<Rightarrow> Inr text)"
  by (simp add: send_def split: option.splits)

section \<open>Loading the store\<close>

text \<open>
  Claim C8. When \<^verbatim>\<open>tasks.json\<close> is absent, \<open>load_tasks\<close> returns the empty list and the
  agent starts with an empty collection. That is the only failure it absorbs: a file
  that cannot be opened for another reason, or whose text is not JSON, makes
  \<open>load_tasks\<close> (and with it the constructor) fail; and whenever \<open>load_tasks\<close> returns a
  value, the file was absent and the value is the empty list, or the value is what the
  text of the file decodes to.
\<close>

theorem load_tasks_absent_is_empty:
  "load_tasks e Absent = Inr (JList [])
   \<and> init e Absent rs n
       = Inr \<lparr>tasks = JList [], task_history = [], tasks_file = Absent, requests = rs, ticks = n\<rparr>
   \<and> load_tasks e Denied = Inl PermissionError
   \<and> (\<forall>t. json_loads e t = None \<longrightarrow> load_tasks e (Content t) = Inl JSONDecodeError)
   \<and> (\<forall>f err. load_tasks e f = Inl err \<longrightarrow> init e f rs n = Inl err)
   \<and> (\<forall>f v. load_tasks e f = Inr v \<longrightarrow>
         (f = Absent \<and> v = JList []) \<or> (\<exists>t. f = Content t \<and> json_loads e t = Some v))"
proof -
  have "(f = Absent \<and> v = JList []) \<or> (\<exists>t. f = Content t \<and> json_loads e t = Some v)"
    if "load_tasks e f = Inr v" for f v
    using that by (cases f) (auto simp: load_tasks_def split: option.splits)
  then show ?thesis
    by (simp add: load_tasks_def init_def)
qed

theorem load_tasks_absent_is_empty_witness:
  "json_loads demo_env ''not json'' = None
   \<and> load_tasks demo_env (Content ''not json'') = Inl JSONDecodeError
   \<and> init demo_env (Content ''not json'') [] 0 = Inl JSONDecodeError
   \<and> load_tasks demo_env Absent = Inr (JList [])
   \<and> init demo_env Absent [] 0 = Inr first_run"
proof -
  have bad: "json_loads demo_env ''not json'' = None"
    by code_simp
  from load_tasks_absent_is_empty [of demo_env "[]" 0] bad
  show ?thesis
    by (simp add: first_run_def)
qed

section \<open>Recommendations and report leave the store alone\<close>

lemma recommendations_state:
  "snd (get_smart_recommendations e s) = s
   \<or> (\<exists>p. snd (get_smart_recommendations e s) = s\<lparr>requests := requests s @ [p]\<rparr>)"
  by (auto simp: get_smart_recommendations_def send_state split: sum.splits)

lemma report_state:
  "snd (generate_progress_report e s) = s
   \<or> (\<exists>p. snd (generate_progress_report e s) = s\<lparr>requests := requests s @ [p]\<rparr>)"
  by (auto simp: generate_progress_report_def send_state split: sum.splits)

text \<open>
  Claim C9. \<open>get_smart_recommendations\<close> and \<open>generate_progress_report\<close> are read-only
  over the store: whatever they return, the tasks (every record, their number and
  their order), the history and the file are as before, and so is the clock; the state
  after the call differs from the state before at most in the list of prompts sent.
\<close>

theorem insight_read_only:
  "snd (get_smart_recommendations e s)
     = s\<lparr>requests := requests (snd (get_smart_recommendations e s))\<rparr>
   \<and> tasks (snd (get_smart_recommendations e s)) = tasks s
   \<and> task_history (snd (get_smart_recommendations e s)) = task_history s
   \<and> tasks_file (snd (get_smart_recommendations e s)) = tasks_file s
   \<and> snd (generate_progress_report e s)
     = s\<lparr>requests := requests (snd (generate_progress_report e s))\<rparr>
   \<and> tasks (snd (generate_progress_report e s)) = tasks s
   \<and> task_history (snd (generate_progress_report e s)) = task_history s
   \<and> tasks_file (snd (generate_progress_report e s)) = tasks_file s"
proof -
  have "snd (get_smart_recommendations e s)
          = s\<lparr>requests := requests (snd (get_smart_recommendations e s))\<rparr>"
    using recommendations_state [of e s] by (elim disjE exE) simp_all
  moreover have "snd (generate_progress_report e s)
          = s\<lparr>requests := requests (snd (generate_progress_report e s))\<rparr>"
    using report_state [of e s] by (elim disjE exE) simp_all
  ultimately show ?thesis
    by (metis state.select_convs(1,2,3) state.surjective state.update_convs(4))
qed

theorem insight_read_only_witness:
  "tasks demo_added = JList [demo_task]
   \<and> tasks (snd (get_smart_recommendations demo_env demo_added)) = JList [demo_task]
   \<and> tasks (snd (generate_progress_report demo_env demo_added)) = JList [demo_task]
   \<and> tasks_file (snd (get_smart_recommendations demo_env demo_added)) = tasks_file demo_added
   \<and> tasks_file (snd (generate_progress_report demo_env demo_added)) = tasks_file demo_added
   \<and> length (requests (snd (generate_progress_report demo_env demo_added))) = 2"
proof -
  have "tasks demo_added = JList [demo_task]"
    by code_simp
  moreover have "length (requests (snd (generate_progress_report demo_env demo_added))) = 2"
    by code_simp
  ultimately show ?thesis
    using insight_read_only [of demo_env demo_added] by simp
qed

section \<open>Recommendations: nothing sent for an empty store\<close>

lemma task_record_getitem:
  assumes "task_record t" "k \<in> set required_keys"
  shows "\<exists>v. getitem t k = Inr v"
proof (cases t)
  case (JDict d)
  with assms have "map_of d k \<noteq> None"
    by (auto simp: list_all_iff)
  with JDict show ?thesis by auto
qed (use assms in simp_all)

lemma map_err_total:
  "(\<And>x. x \<in> set xs \<Longrightarrow> \<exists>y. f x = Inr y) \<Longrightarrow> \<exists>ys. map_err f xs = Inr ys"
proof (induction xs)
  case Nil
  show ?case by simp
next
  case (Cons x xs)
  then obtain y ys where "f x = Inr y" "map_err f xs = Inr ys"
    by (meson list.set_intros)
  then show ?case by simp
qed

lemma task_line_total:
  assumes "task_record t"
  shows "\<exists>line. task_line e t = Inr line"
proof -
  obtain i d p st where
    "getitem t ''id'' = Inr i" "getitem t ''description'' = Inr d"
    "getitem t ''priority'' = Inr p" "getitem t ''status'' = Inr st"
    using task_record_getitem [OF assms] by (fastforce simp: required_keys_def)
  then show ?thesis by (simp add: task_line_def)
qed

text \<open>
  Claim C7. On an empty collection \<open>get_smart_recommendations\<close> returns the fixed
  message and leaves the whole state as it was, so nothing is sent. On a non-empty
  list of task records it sends exactly one prompt and returns what the provider
  answers to that prompt, unchanged (or fails with the provider's error when the call
  raises).
\<close>

theorem recommendations_empty_or_one_request:
  "(\<not> truthy (tasks s) \<longrightarrow>
      get_smart_recommendations e s = (Inr ''No tasks available for analysis'', s))
   \<and> (\<forall>ts. tasks s = JList ts \<and> ts \<noteq> [] \<and> (\<forall>t\<in>set ts. task_record t) \<longrightarrow>
        (\<exists>prompt.
           requests (snd (get_smart_recommendations e s)) = requests s @ [prompt]
           \<and> fst (get_smart_recommendations e s)
               = (case create e (length (requests s)) prompt of
                    None \<Rightarrow> Inl APIError
                  | Some text \<Rightarrow> Inr text)))"
proof (intro conjI allI impI)
  assume "\<not> truthy (tasks s)"
  then show "get_smart_recommendations e s = (Inr ''No tasks available for analysis'', s)"
    by (simp add: get_smart_recommendations_def)
next
  fix ts
  assume a: "tasks s = JList ts \<and> ts \<noteq> [] \<and> (\<forall>t\<in>set ts. task_record t)"
  then obtain lines where l: "map_err (task_line e) ts = Inr lines"
    using map_err_total [of ts "task_line e"] task_line_total by blast
  let ?p = "recommendations_prompt (join nl lines)"
  from a l have "get_smart_recommendations e s = send e ?p s"
    by (simp add: get_smart_recommendations_def)
  then show "\<exists>prompt.
           requests (snd (get_smart_recommendations e s)) = requests s @ [prompt]
           \<and> fst (get_smart_recommendations e s)
               = (case create e (length (requests s)) prompt of
                    None \<Rightarrow> Inl APIError
                  | Some text \<Rightarrow> Inr text)"
    by (intro exI [of _ ?p]) (simp add: send_state send_result)
qed

theorem recommendations_empty_or_one_request_witness:
  "\<not> truthy (tasks first_run)
   \<and> get_smart_recommendations demo_env first_run
       = (Inr ''No tasks available for analysis'', first_run)
   \<and> requests (snd (get_smart_recommendations demo_env first_run)) = []
   \<and> tasks demo_added = JList [demo_task] \<and> [demo_task] \<noteq> [] \<and> task_record demo_task
   \<and> (\<exists>prompt.
         requests (snd (get_smart_recommendations demo_env demo_added))
           = requests demo_added @ [prompt]
         \<and> fst (get_smart_recommendations demo_env demo_added) = Inr demo_reply)"
proof -
  have empty: "\<not> truthy (tasks first_run)"
    by (simp add: first_run_def)
  have one: "tasks demo_added = JList [demo_task]"
    by code_simp
  have rec: "task_record demo_task"
    by (simp add: demo_task_def required_keys_def)
  have answer: "create demo_env n p = Some demo_reply" for n p
    by (simp add: demo_env_def)
  from recommendations_empty_or_one_request [of first_run demo_env] empty
  have "get_smart_recommendations demo_env first_run
       = (Inr ''No tasks available for analysis'', first_run)"
    by simp
  moreover from recommendations_empty_or_one_request [of demo_added demo_env] one rec
  have "\<exists>prompt.
         requests (snd (get_smart_recommendations demo_env demo_added))
           = requests demo_added @ [prompt]
         \<and> fst (get_smart_recommendations demo_env demo_added) = Inr demo_reply"
    by (simp add: answer)
  ultimately show ?thesis
    using empty one rec by (simp add: first_run_def)
qed

section \<open>Adding a task: the three outcomes\<close>

lemma analyze_state:
  "snd (analyze_task_description e d s) = s\<lparr>requests := requests s @ [analysis_prompt d]\<rparr>"
  by (simp add: analyze_task_description_def send_def split: option.splits)





lemma new_task_fields:
  assumes "new_task b n d c a = Inr t"
  shows "task_record t"
    and "getitem t ''id'' = Inr (JInt n)"
    and "getitem t ''description'' = Inr (JStr d)"
    and "getitem t ''created_at'' = Inr (JStr c)"
    and "getitem t ''status'' = Inr (JStr ''pending'')"
    and "getitem t ''priority'' = getitem a ''priority''"
    and "getitem t ''estimated_hours'' = getitem a (estimate_key b)"
    and "getitem t ''category'' = getitem a ''category''"
    and "getitem t ''subtasks'' = getitem a ''potential_subtasks''"
    and "getitem t ''completed_at'' = Inl (KeyError ''completed_at'')"
    and "\<exists>m. t = JDict m \<and> map fst m = required_keys"
  using assms
  by (auto simp: new_task_def required_keys_def split: sum.splits)


lemma numbered_snoc:
  assumes "numbered ts" "getitem t ''id'' = Inr (JInt (int (length ts) + 1))"
  shows "numbered (ts @ [t])"
  using assms by (simp add: numbered_def ids_of_def)

lemma numbered_nth:
  assumes "numbered ts" "i < length ts"
  shows "getitem (ts ! i) ''id'' = Inr (JInt (int i + 1))"
proof -
  have "ids_of ts ! i = map (\<lambda>i. Inr (JInt (int i + 1))) [0..<length ts] ! i"
    using assms by (simp add: numbered_def)
  with assms show ?thesis by (simp add: ids_of_def)
qed

lemma numbered_has_id:
  assumes "numbered ts" "i < length ts"
  shows "has_id (ts ! i) n \<longleftrightarrow> n = int i + 1"
  using numbered_nth [OF assms] by (auto simp: has_id_def)

lemma numbered_distinct:
  assumes "numbered ts"
  shows "distinct (ids_of ts)"
proof -
  have "inj_on (\<lambda>i. Inr (JInt (int i + 1)) :: error + json) (set [0..<length ts])"
    by (auto simp: inj_on_def)
  then show ?thesis
    using assms by (simp add: numbered_def distinct_map)
qed

lemma numbered_fresh:
  assumes "numbered ts" "t \<in> set ts"
  shows "\<not> has_id t (int (length ts) + 1)"
proof -
  from assms obtain i where "i < length ts" "t = ts ! i"
    by (auto simp: in_set_conv_nth)
  with assms show ?thesis by (simp add: numbered_has_id)
qed







section \<open>Completing a task\<close>

lemma getitem_setitem:
  "getitem t k = Inr v \<Longrightarrow>
   getitem (setitem t k' x) k'' = (if k'' = k' then Inr x else getitem t k'')"
  by (cases t) (auto simp: update_conv' split: option.splits)

lemma getitem_mark_completed:
  assumes "getitem t k = Inr v"
  shows "getitem (mark_completed now t) k' =
     (if k' = ''completed_at'' then Inr (JStr now)
      else if k' = ''status'' then Inr (JStr ''completed'')
      else getitem t k')"
proof -
  obtain d where "t = JDict d"
    using assms by (cases t) auto
  then show ?thesis
    by (auto simp: mark_completed_def update_conv' split: option.splits)
qed

lemma has_id_getitem: "has_id t n \<Longrightarrow> \<exists>v. getitem t ''id'' = Inr v \<and> eq_int v n"
  by (auto simp: has_id_def split: sum.splits)

lemma has_id_mark_completed:
  "has_id t n \<Longrightarrow> has_id (mark_completed now t) m = has_id t m"
proof -
  assume "has_id t n"
  then obtain v where "getitem t ''id'' = Inr v"
    by (auto dest: has_id_getitem)
  then have "getitem (mark_completed now t) ''id'' = getitem t ''id''"
    by (simp add: getitem_mark_completed)
  then show ?thesis by (simp add: has_id_def)
qed

lemma task_record_mark_completed:
  "task_record t \<Longrightarrow> task_record (mark_completed now t)"
  by (cases t) (auto simp: mark_completed_def list_all_iff update_conv')

text \<open>What the loop does when it stops at index \<open>i\<close> of the tasks still ahead.\<close>

lemma complete_loop_hit:
  assumes "first_match rest n i"
  shows "complete_loop e n seen rest s =
     (let task' = mark_completed (isoformat_now e (ticks s)) (rest ! i);
          s1 = s\<lparr>tasks := JList (seen @ rest[i := task']),
                 task_history :=
                   task_history s @ [history_entry n (isoformat_now e (Suc (ticks s)))],
                 ticks := Suc (Suc (ticks s))\<rparr>
      in case save_tasks e s1 of
           (Inl err, s2) \<Rightarrow> (Inl err, s2)
         | (Inr u, s2) \<Rightarrow>
             (case getitem task' ''description'' of
                Inl err \<Rightarrow> (Inl err, s2)
              | Inr d \<Rightarrow> (Inr (''Completed task: '' @ py_str e d), s2)))"
  using assms
proof (induction rest arbitrary: seen i)
  case Nil
  then show ?case by (simp add: first_match_def)
next
  case (Cons t rest)
  show ?case
  proof (cases i)
    case 0
    with Cons.prems obtain v where "getitem t ''id'' = Inr v" "eq_int v n"
      by (auto simp: first_match_def dest: has_id_getitem)
    with 0 show ?thesis by (simp add: Let_def)
  next
    case (Suc j)
    with Cons.prems obtain v where v: "getitem t ''id'' = Inr v" "\<not> eq_int v n"
      by (auto simp: first_match_def split: sum.splits)
    from Suc Cons.prems have "first_match rest n j"
      by (auto simp: first_match_def)
    from Cons.IH [OF this, of "seen @ [t]"] v Suc show ?thesis
      by simp
  qed
qed

lemma complete_loop_miss:
  assumes "list_all (\<lambda>t. case getitem t ''id'' of Inl err \<Rightarrow> False | Inr v \<Rightarrow> \<not> eq_int v n) rest"
  shows "complete_loop e n seen rest s = (Inr ''Task not found'', s)"
  using assms by (induction rest arbitrary: seen) (auto split: sum.splits)

lemma task_record_no_id:
  assumes "task_record t" "\<not> has_id t n"
  shows "\<exists>v. getitem t ''id'' = Inr v \<and> \<not> eq_int v n"
proof -
  obtain v where "getitem t ''id'' = Inr v"
    using task_record_getitem [OF assms(1), of "''id''"] by (auto simp: required_keys_def)
  with assms(2) show ?thesis by (simp add: has_id_def)
qed

lemma first_matchI:
  assumes "\<forall>t\<in>set ts. task_record t" "i < length ts" "has_id (ts ! i) n"
    "\<forall>j<i. \<not> has_id (ts ! j) n"
  shows "first_match ts n i"
proof -
  have "case getitem t ''id'' of Inl err \<Rightarrow> False | Inr v \<Rightarrow> \<not> eq_int v n"
    if "t \<in> set (take i ts)" for t
  proof -
    from that obtain j where "j < i" "t = ts ! j"
      using assms(2) by (auto simp: in_set_conv_nth)
    moreover from \<open>j < i\<close> assms(2) have "ts ! j \<in> set ts"
      by simp
    ultimately show ?thesis
      using assms(1,4) task_record_no_id [of t n] by auto
  qed
  with assms(2,3) show ?thesis
    by (simp add: first_match_def list_all_iff)
qed

lemma complete_task_hit_tasks:
  assumes "tasks s = JList ts" "first_match ts n i"
  shows "tasks (snd (complete_task e n s))
           = JList (ts[i := mark_completed (isoformat_now e (ticks s)) (ts ! i)])"
    and "task_history (snd (complete_task e n s))
           = task_history s @ [history_entry n (isoformat_now e (Suc (ticks s)))]"
proof -
  let ?s1 = "s\<lparr>tasks := JList (ts[i := mark_completed (isoformat_now e (ticks s)) (ts ! i)]),
                task_history :=
                  task_history s @ [history_entry n (isoformat_now e (Suc (ticks s)))],
                ticks := Suc (Suc (ticks s))\<rparr>"
  obtain r s2 where sv: "save_tasks e ?s1 = (r, s2)"
    by (cases "save_tasks e ?s1")
  then have "tasks s2 = tasks ?s1" "task_history s2 = task_history ?s1"
    using save_tasks_keeps(1,2) [of e ?s1] by simp_all
  then show "tasks (snd (complete_task e n s))
           = JList (ts[i := mark_completed (isoformat_now e (ticks s)) (ts ! i)])"
    and "task_history (snd (complete_task e n s))
           = task_history s @ [history_entry n (isoformat_now e (Suc (ticks s)))]"
    using assms sv
    by (simp_all add: complete_task_def complete_loop_hit [OF assms(2), of e "[]" s] Let_def
          split: sum.splits)
qed

lemma complete_task_hit:
  assumes "tasks s = JList ts" "first_match ts n i"
    and "getitem (ts ! i) ''description'' = Inr d"
  shows "complete_task e n s =
     (let s1 = s\<lparr>tasks := JList (ts[i := mark_completed (isoformat_now e (ticks s)) (ts ! i)]),
               task_history :=
                 task_history s @ [history_entry n (isoformat_now e (Suc (ticks s)))],
               ticks := Suc (Suc (ticks s))\<rparr>
      in if writable e (tasks_file s)
         then (Inr (''Completed task: '' @ py_str e d),
               s1\<lparr>tasks_file := overwrite (tasks_file s) (json_dumps e
                  (JList (ts[i := mark_completed (isoformat_now e (ticks s)) (ts ! i)])))\<rparr>)
         else (Inl PermissionError, s1))"
proof -
  have "getitem (mark_completed (isoformat_now e (ticks s)) (ts ! i)) ''description'' = Inr d"
    using assms(3) by (simp add: getitem_mark_completed)
  then show ?thesis
    using assms(1)
    by (simp add: complete_task_def complete_loop_hit [OF assms(2), of e "[]" s] Let_def
          save_tasks_def)
qed

lemma complete_task_miss:
  assumes "tasks s = JList ts" "\<forall>t\<in>set ts. task_record t" "\<forall>t\<in>set ts. \<not> has_id t n"
  shows "complete_task e n s = (Inr ''Task not found'', s)"
proof -
  have "list_all (\<lambda>t. case getitem t ''id'' of Inl err \<Rightarrow> False | Inr v \<Rightarrow> \<not> eq_int v n) ts"
    using assms(2,3) task_record_no_id [of _ n] by (fastforce simp: list_all_iff)
  then show ?thesis
    using assms(1) by (simp add: complete_task_def complete_loop_miss)
qed

text \<open>
  Claim C2. On a list of task records, whatever the file: if the task at index \<open>i\<close> is
  the first task with id \<open>n\<close> (where ids are unique, the only one) and it is pending,
  then after \<open>complete_task\<close> the collection is the old one with that task replaced by a
  task with the same id, of status \<open>completed\<close>, whose \<open>completed_at\<close> is the reading of
  the clock (a string, so not null), and the history has grown by exactly the entry
  \<open>{action: complete, task_id: n, timestamp: ...}\<close>. Where the file can be written it
  then holds the new collection and the method reports the task's description; where
  it cannot, the method fails with \<open>PermissionError\<close> after these changes and the file
  is as it was. If no task has id \<open>n\<close>, the method returns \<open>Task not found\<close> and the
  whole state, the collection included, is as before.
\<close>

theorem complete_task_pending_or_absent:
  assumes "tasks s = JList ts" and "\<forall>t\<in>set ts. task_record t"
  shows
    "(\<forall>i. i < length ts \<and> has_id (ts ! i) n \<and> (\<forall>j<i. \<not> has_id (ts ! j) n)
          \<and> status_of (ts ! i) = Inr (JStr ''pending'') \<longrightarrow>
        (\<exists>t' d. tasks (snd (complete_task e n s)) = JList (ts[i := t'])
           \<and> has_id t' n
           \<and> status_of t' = Inr (JStr ''completed'')
           \<and> completed_at_of t' = Inr (JStr (isoformat_now e (ticks s)))
           \<and> task_history (snd (complete_task e n s))
               = task_history s
                 @ [JDict [(''action'', JStr ''complete''), (''task_id'', JInt n),
                           (''timestamp'', JStr (isoformat_now e (Suc (ticks s))))]]
           \<and> getitem (ts ! i) ''description'' = Inr d
           \<and> (if writable e (tasks_file s)
              then fst (complete_task e n s) = Inr (''Completed task: '' @ py_str e d)
                 \<and> tasks_file (snd (complete_task e n s))
                     = overwrite (tasks_file s) (json_dumps e (JList (ts[i := t'])))
              else fst (complete_task e n s) = Inl PermissionError
                 \<and> tasks_file (snd (complete_task e n s)) = tasks_file s)))
     \<and> ((\<forall>t\<in>set ts. \<not> has_id t n) \<longrightarrow> complete_task e n s = (Inr ''Task not found'', s))"
proof (intro conjI allI impI)
  fix i
  assume h: "i < length ts \<and> has_id (ts ! i) n \<and> (\<forall>j<i. \<not> has_id (ts ! j) n)
          \<and> status_of (ts ! i) = Inr (JStr ''pending'')"
  then have i: "i < length ts" and hit: "has_id (ts ! i) n"
    and first: "\<forall>j<i. \<not> has_id (ts ! j) n"
    by blast+
  from assms(2) i hit first have fm: "first_match ts n i"
    by (rule first_matchI)
  from i assms(2) have "task_record (ts ! i)" by simp
  then obtain d where d: "getitem (ts ! i) ''description'' = Inr d"
    using task_record_getitem [of "ts ! i" "''description''"] by (auto simp: required_keys_def)
  let ?t = "mark_completed (isoformat_now e (ticks s)) (ts ! i)"
  have st: "status_of ?t = Inr (JStr ''completed'')"
    and at: "completed_at_of ?t = Inr (JStr (isoformat_now e (ticks s)))"
    using d by (simp_all add: status_of_def completed_at_of_def getitem_mark_completed)
  have same_id: "has_id ?t n"
    using hit by (simp add: has_id_mark_completed)
  note run = complete_task_hit [OF assms(1) fm d, of e]
  have "tasks (snd (complete_task e n s)) = JList (ts[i := ?t])
      \<and> task_history (snd (complete_task e n s))
          = task_history s
            @ [JDict [(''action'', JStr ''complete''), (''task_id'', JInt n),
                      (''timestamp'', JStr (isoformat_now e (Suc (ticks s))))]]
      \<and> (if writable e (tasks_file s)
         then fst (complete_task e n s) = Inr (''Completed task: '' @ py_str e d)
            \<and> tasks_file (snd (complete_task e n s))
                = overwrite (tasks_file s) (json_dumps e (JList (ts[i := ?t])))
         else fst (complete_task e n s) = Inl PermissionError
            \<and> tasks_file (snd (complete_task e n s)) = tasks_file s)"
    by (simp add: run Let_def history_entry_def)
  with st at same_id d
  show "\<exists>t' d. tasks (snd (complete_task e n s)) = JList (ts[i := t'])
           \<and> has_id t' n
           \<and> status_of t' = Inr (JStr ''completed'')
           \<and> completed_at_of t' = Inr (JStr (isoformat_now e (ticks s)))
           \<and> task_history (snd (complete_task e n s))
               = task_history s
                 @ [JDict [(''action'', JStr ''complete''), (''task_id'', JInt n),
                           (''timestamp'', JStr (isoformat_now e (Suc (ticks s))))]]
           \<and> getitem (ts ! i) ''description'' = Inr d
           \<and> (if writable e (tasks_file s)
              then fst (complete_task e n s) = Inr (''Completed task: '' @ py_str e d)
                 \<and> tasks_file (snd (complete_task e n s))
                     = overwrite (tasks_file s) (json_dumps e (JList (ts[i := t'])))
              else fst (complete_task e n s) = Inl PermissionError
                 \<and> tasks_file (snd (complete_task e n s)) = tasks_file s)"
    by (intro exI [of _ ?t] exI [of _ d]) blast
next
  assume "\<forall>t\<in>set ts. \<not> has_id t n"
  with assms(1,2) show "complete_task e n s = (Inr ''Task not found'', s)"
    by (rule complete_task_miss)
qed

theorem complete_task_pending_or_absent_witness:
  "tasks demo_added = JList [demo_task] \<and> task_record demo_task
   \<and> has_id demo_task 1 \<and> status_of demo_task = Inr (JStr ''pending'')
   \<and> (\<exists>t'. tasks (snd (complete_task demo_env 1 demo_added)) = JList [t']
         \<and> has_id t' 1
         \<and> status_of t' = Inr (JStr ''completed'')
         \<and> completed_at_of t' = Inr (JStr ''2024-05-01T10:00:01''))
   \<and> task_history demo_added = []
   \<and> task_history (snd (complete_task demo_env 1 demo_added))
       = [JDict [(''action'', JStr ''complete''), (''task_id'', JInt 1),
                 (''timestamp'', JStr ''2024-05-01T10:00:02'')]]
   \<and> fst (complete_task demo_env 1 demo_added) = Inr ''Completed task: Write spec''
   \<and> (\<exists>t'. tasks (snd (complete_task locked_env 1 demo_added)) = JList [t']
         \<and> status_of t' = Inr (JStr ''completed''))
   \<and> task_history (snd (complete_task locked_env 1 demo_added))
       = [JDict [(''action'', JStr ''complete''), (''task_id'', JInt 1),
                 (''timestamp'', JStr ''2024-05-01T10:00:02'')]]
   \<and> fst (complete_task locked_env 1 demo_added) = Inl PermissionError
   \<and> tasks_file (snd (complete_task locked_env 1 demo_added)) = tasks_file demo_added
   \<and> \<not> has_id demo_task 2
   \<and> complete_task demo_env 2 demo_added = (Inr ''Task not found'', demo_added)"
proof -
  have h1: "tasks demo_added = JList [demo_task]" by code_simp
  have h2: "\<forall>t\<in>set [demo_task]. task_record t"
    by (simp add: demo_task_def required_keys_def)
  have id1: "has_id demo_task 1" and id2: "\<not> has_id demo_task 2"
    by (simp_all add: demo_task_def has_id_def)
  have pending: "status_of demo_task = Inr (JStr ''pending'')"
    by (simp add: demo_task_def status_of_def)
  have clock: "isoformat_now demo_env (ticks demo_added) = ''2024-05-01T10:00:01''
     \<and> isoformat_now demo_env (Suc (ticks demo_added)) = ''2024-05-01T10:00:02''
     \<and> isoformat_now locked_env (ticks demo_added) = ''2024-05-01T10:00:01''
     \<and> isoformat_now locked_env (Suc (ticks demo_added)) = ''2024-05-01T10:00:02''
     \<and> task_history demo_added = []
     \<and> py_str demo_env (JStr ''Write spec'') = ''Write spec''"
    by code_simp
  have perm: "writable demo_env (tasks_file demo_added)"
    "\<not> writable locked_env (tasks_file demo_added)"
    by (simp_all add: demo_env_def locked_env_def)
  have descr: "getitem demo_task ''description'' = Inr (JStr ''Write spec'')"
    by (simp add: demo_task_def)
  note c2 = complete_task_pending_or_absent [OF h1 h2]
  from c2 [of 1 demo_env, THEN conjunct1, rule_format, of 0] id1 pending clock descr perm(1)
  have hit: "(\<exists>t'. tasks (snd (complete_task demo_env 1 demo_added)) = JList [t']
         \<and> has_id t' 1
         \<and> status_of t' = Inr (JStr ''completed'')
         \<and> completed_at_of t' = Inr (JStr ''2024-05-01T10:00:01''))
   \<and> task_history (snd (complete_task demo_env 1 demo_added))
       = [JDict [(''action'', JStr ''complete''), (''task_id'', JInt 1),
                 (''timestamp'', JStr ''2024-05-01T10:00:02'')]]
   \<and> fst (complete_task demo_env 1 demo_added) = Inr ''Completed task: Write spec''"
    by auto
  from c2 [of 1 locked_env, THEN conjunct1, rule_format, of 0] id1 pending clock descr perm(2)
  have refused: "(\<exists>t'. tasks (snd (complete_task locked_env 1 demo_added)) = JList [t']
         \<and> status_of t' = Inr (JStr ''completed''))
   \<and> task_history (snd (complete_task locked_env 1 demo_added))
       = [JDict [(''action'', JStr ''complete''), (''task_id'', JInt 1),
                 (''timestamp'', JStr ''2024-05-01T10:00:02'')]]
   \<and> fst (complete_task locked_env 1 demo_added) = Inl PermissionError
   \<and> tasks_file (snd (complete_task locked_env 1 demo_added)) = tasks_file demo_added"
    by auto
  from c2 [of 2 demo_env, THEN conjunct2] id2
  have miss: "complete_task demo_env 2 demo_added = (Inr ''Task not found'', demo_added)"
    by simp
  from h2 have "task_record demo_task" by simp
  with h1 id1 id2 pending hit refused miss clock show ?thesis
    by blast
qed

section \<open>What completing a task leaves alone\<close>

text \<open>
  Claim C10. When the loop of \<open>complete_task\<close> stops at index \<open>i\<close> (the first task with
  the id), the collection afterwards is the old list with the task at \<open>i\<close> replaced:
  every other task is as before, also a later one with the same id, and the list is as
  long as before. The new task at \<open>i\<close> is the old dict with \<open>status\<close> and \<open>completed_at\<close>
  set; looking up any other key (\<open>id\<close>, \<open>description\<close>, \<open>created_at\<close>, \<open>priority\<close>,
  \<open>estimated_hours\<close>, \<open>category\<close>, \<open>subtasks\<close>) gives what it gave before. This holds
  whether or not the file can be written.
\<close>

theorem complete_task_frame:
  assumes "tasks s = JList ts" and "first_match ts n i"
  shows "\<exists>t'. tasks (snd (complete_task e n s)) = JList (ts[i := t'])
     \<and> (\<forall>j<length ts. j \<noteq> i \<longrightarrow> ts[i := t'] ! j = ts ! j)
     \<and> length (ts[i := t']) = length ts
     \<and> (\<forall>k. k \<noteq> ''status'' \<and> k \<noteq> ''completed_at'' \<longrightarrow> getitem t' k = getitem (ts ! i) k)
     \<and> (\<exists>d. ts ! i = JDict d
          \<and> t' = JDict (AList.update ''completed_at'' (JStr (isoformat_now e (ticks s)))
                     (AList.update ''status'' (JStr ''completed'') d)))"
proof -
  let ?t = "mark_completed (isoformat_now e (ticks s)) (ts ! i)"
  from assms(2) obtain v where v: "getitem (ts ! i) ''id'' = Inr v"
    by (auto simp: first_match_def dest: has_id_getitem)
  then obtain d where d: "ts ! i = JDict d"
    by (cases "ts ! i") auto
  have "\<forall>k. k \<noteq> ''status'' \<and> k \<noteq> ''completed_at'' \<longrightarrow> getitem ?t k = getitem (ts ! i) k"
    using v by (simp add: getitem_mark_completed)
  moreover have "?t = JDict (AList.update ''completed_at'' (JStr (isoformat_now e (ticks s)))
                     (AList.update ''status'' (JStr ''completed'') d))"
    using d by (simp add: mark_completed_def)
  ultimately show ?thesis
    using d complete_task_hit_tasks(1) [OF assms, of e]
    by (intro exI [of _ ?t]) simp
qed

theorem complete_task_frame_witness:
  "tasks twins = JList [demo_task, demo_task] \<and> first_match [demo_task, demo_task] 1 0
   \<and> (\<exists>t'. tasks (snd (complete_task demo_env 1 twins)) = JList [t', demo_task]
         \<and> getitem t' ''id'' = Inr (JInt 1)
         \<and> getitem t' ''description'' = Inr (JStr ''Write spec'')
         \<and> getitem t' ''estimated_hours'' = Inr (JInt 2))"
proof -
  have h1: "tasks twins = JList [demo_task, demo_task]"
    by (simp add: twins_def)
  have h2: "first_match [demo_task, demo_task] 1 0"
    by (simp add: first_match_def has_id_def demo_task_def)
  from complete_task_frame [OF h1 h2, of demo_env]
  obtain t' where "tasks (snd (complete_task demo_env 1 twins)) = JList ([demo_task, demo_task][0 := t'])"
    and "\<forall>k. k \<noteq> ''status'' \<and> k \<noteq> ''completed_at'' \<longrightarrow>
           getitem t' k = getitem ([demo_task, demo_task] ! 0) k"
    by blast
  then have "tasks (snd (complete_task demo_env 1 twins)) = JList [t', demo_task]
         \<and> getitem t' ''id'' = Inr (JInt 1)
         \<and> getitem t' ''description'' = Inr (JStr ''Write spec'')
         \<and> getitem t' ''estimated_hours'' = Inr (JInt 2)"
    by (simp add: demo_task_def)
  with h1 h2 show ?thesis by blast
qed

section \<open>What a session does to the collection\<close>

lemma add_task_tasks:
  assumes "tasks s = JList ts"
  shows "tasks (snd (add_task b e d s)) = JList ts
     \<or> (\<exists>t a. new_task b (int (length ts) + 1) d (isoformat_now e (ticks s)) a = Inr t
          \<and> tasks (snd (add_task b e d s)) = JList (ts @ [t]))"
proof -
  obtain r s1 where a: "analyze_task_description e d s = (r, s1)"
    by (cases "analyze_task_description e d s")
  then have s1: "s1 = s\<lparr>requests := requests s @ [analysis_prompt d]\<rparr>"
    using analyze_state [of e d s] by simp
  show ?thesis
  proof (cases r)
    case (Inl err)
    with a s1 assms show ?thesis by (simp add: add_task_def)
  next
    case (Inr an)
    show ?thesis
    proof (cases "new_task b (int (length ts) + 1) d (isoformat_now e (ticks s)) an")
      case (Inl err)
      with Inr a s1 assms show ?thesis by (simp add: add_task_def)
    next
      case t: (Inr t)
      let ?s3 = "s\<lparr>requests := requests s @ [analysis_prompt d], ticks := Suc (ticks s),
                    tasks := JList (ts @ [t])\<rparr>"
      obtain r' s4 where sv: "save_tasks e ?s3 = (r', s4)"
        by (cases "save_tasks e ?s3")
      then have "tasks s4 = JList (ts @ [t])"
        using save_tasks_keeps(1) [of e ?s3] by simp
      with Inr a s1 assms t sv have "tasks (snd (add_task b e d s)) = JList (ts @ [t])"
        by (simp add: add_task_def split: sum.splits)
      with t show ?thesis by blast
    qed
  qed
qed

lemma complete_loop_cases:
  "(\<exists>i. first_match rest n i) \<or> snd (complete_loop e n seen rest s) = s"
proof (induction rest arbitrary: seen)
  case Nil
  show ?case by simp
next
  case (Cons t rest)
  show ?case
  proof (cases "getitem t ''id''")
    case (Inl err)
    then show ?thesis by simp
  next
    case (Inr v)
    show ?thesis
    proof (cases "eq_int v n")
      case True
      with Inr have "first_match (t # rest) n 0"
        by (simp add: first_match_def has_id_def)
      then show ?thesis by blast
    next
      case False
      from Cons.IH [of "seen @ [t]"] show ?thesis
      proof
        assume "\<exists>i. first_match rest n i"
        then obtain i where "first_match rest n i" ..
        with Inr False have "first_match (t # rest) n (Suc i)"
          by (simp add: first_match_def)
        then show ?thesis by blast
      next
        assume "snd (complete_loop e n (seen @ [t]) rest s) = s"
        with Inr False show ?thesis by simp
      qed
    qed
  qed
qed

lemma complete_task_tasks:
  assumes "tasks s = JList ts"
  shows "tasks (snd (complete_task e n s)) = JList ts
     \<or> (\<exists>i. first_match ts n i
          \<and> tasks (snd (complete_task e n s))
              = JList (ts[i := mark_completed (isoformat_now e (ticks s)) (ts ! i)]))"
  using complete_loop_cases [of ts n e "[]" s]
proof
  assume "\<exists>i. first_match ts n i"
  then obtain i where "first_match ts n i" ..
  with complete_task_hit_tasks(1) [OF assms this, of e] show ?thesis by blast
next
  assume "snd (complete_loop e n [] ts s) = s"
  with assms show ?thesis by (simp add: complete_task_def)
qed

lemma insight_tasks:
  "tasks (snd (get_smart_recommendations e s)) = tasks s"
  "tasks (snd (generate_progress_report e s)) = tasks s"
  using recommendations_state [of e s] report_state [of e s] by auto

lemma first_match_id:
  "first_match ts n i \<Longrightarrow> i < length ts \<and> has_id (ts ! i) n \<and> (\<exists>v. getitem (ts ! i) ''id'' = Inr v)"
  by (auto simp: first_match_def dest: has_id_getitem)

lemma ids_of_mark_completed:
  assumes "i < length ts" "getitem (ts ! i) ''id'' = Inr v"
  shows "ids_of (ts[i := mark_completed now (ts ! i)]) = ids_of ts"
proof -
  have "getitem (mark_completed now (ts ! i)) ''id'' = getitem (ts ! i) ''id''"
    using assms(2) by (simp add: getitem_mark_completed)
  then show ?thesis
    using assms(1) by (simp add: ids_of_def map_update list_update_same_conv)
qed

lemma dispatch_numbered:
  assumes "tasks s = JList ts" "numbered ts"
  shows "\<exists>ts'. tasks (dispatch b e c s) = JList ts' \<and> numbered ts'"
proof (cases c)
  case (Add d)
  from add_task_tasks [OF assms(1), of b e d] show ?thesis
  proof (elim disjE exE conjE)
    assume "tasks (snd (add_task b e d s)) = JList ts"
    with Add assms(2) show ?thesis by simp
  next
    fix t a
    assume t: "new_task b (int (length ts) + 1) d (isoformat_now e (ticks s)) a = Inr t"
      and "tasks (snd (add_task b e d s)) = JList (ts @ [t])"
    with Add numbered_snoc [OF assms(2) new_task_fields(2) [OF t]] show ?thesis by simp
  qed
next
  case Recommend
  with assms show ?thesis by (simp add: insight_tasks)
next
  case Report
  with assms show ?thesis by (simp add: insight_tasks)
next
  case (Complete n)
  from complete_task_tasks [OF assms(1), of e n] show ?thesis
  proof (elim disjE exE conjE)
    assume "tasks (snd (complete_task e n s)) = JList ts"
    with Complete assms(2) show ?thesis by simp
  next
    fix i
    assume fm: "first_match ts n i"
      and upd: "tasks (snd (complete_task e n s))
              = JList (ts[i := mark_completed (isoformat_now e (ticks s)) (ts ! i)])"
    from first_match_id [OF fm] obtain v where "i < length ts" "getitem (ts ! i) ''id'' = Inr v"
      by blast
    then have "numbered (ts[i := mark_completed (isoformat_now e (ticks s)) (ts ! i)])"
      using assms(2) by (simp add: numbered_def ids_of_mark_completed)
    with Complete upd show ?thesis by simp
  qed
qed

lemma main_loop_numbered:
  assumes "tasks s = JList ts" "numbered ts"
  shows "\<exists>ts'. tasks (main_loop b e cs s) = JList ts' \<and> numbered ts'"
  using assms
proof (induction cs arbitrary: s ts)
  case Nil
  then show ?case by simp
next
  case (Cons c cs)
  from dispatch_numbered [OF Cons.prems, of b e c]
  obtain ts1 where "tasks (dispatch b e c s) = JList ts1" "numbered ts1" by blast
  from Cons.IH [OF this] show ?case by simp
qed

text \<open>
  Claim C4. The id of a new task is \<open>len + 1\<close>. In every collection that a session
  starting from the empty store has built (by any choices, so also by additions
  alone; nothing deletes), the ids are 1, 2, 3, ... in order and so pairwise
  distinct, and when a further \<open>add_task\<close> appends a task, its id is \<open>len + 1\<close>, no task
  of the collection has that id, and the ids stay pairwise distinct.
\<close>

theorem ids_never_collide:
  "\<exists>ts. tasks (main_loop b e cs first_run) = JList ts
     \<and> numbered ts \<and> distinct (ids_of ts)
     \<and> (\<forall>b' e' d t.
          tasks (snd (add_task b' e' d (main_loop b e cs first_run))) = JList (ts @ [t]) \<longrightarrow>
            getitem t ''id'' = Inr (JInt (int (length ts) + 1))
            \<and> (\<forall>u\<in>set ts. \<not> has_id u (int (length ts) + 1))
            \<and> distinct (ids_of (ts @ [t])))"
proof -
  have "tasks first_run = JList []" "numbered []"
    by (simp_all add: first_run_def numbered_def ids_of_def)
  from main_loop_numbered [OF this, of b e cs]
  obtain ts where ts: "tasks (main_loop b e cs first_run) = JList ts" and num: "numbered ts"
    by blast
  have "getitem t ''id'' = Inr (JInt (int (length ts) + 1))
        \<and> (\<forall>u\<in>set ts. \<not> has_id u (int (length ts) + 1))
        \<and> distinct (ids_of (ts @ [t]))"
    if "tasks (snd (add_task b' e' d (main_loop b e cs first_run))) = JList (ts @ [t])"
    for b' e' d t
  proof -
    from add_task_tasks [OF ts, of b' e' d] that
    obtain a where
      "new_task b' (int (length ts) + 1) d (isoformat_now e' (ticks (main_loop b e cs first_run))) a
         = Inr t"
      by auto
    then have id: "getitem t ''id'' = Inr (JInt (int (length ts) + 1))"
      by (rule new_task_fields(2))
    with num have "numbered (ts @ [t])" by (rule numbered_snoc)
    then have "distinct (ids_of (ts @ [t]))" by (rule numbered_distinct)
    with id numbered_fresh [OF num] show ?thesis by blast
  qed
  with ts num numbered_distinct [OF num] show ?thesis by blast
qed

theorem ids_never_collide_witness:
  "tasks (main_loop OpenAI demo_env [Add ''Write spec'', Add ''Review''] first_run)
     = JList [demo_task, demo_review]
   \<and> numbered [demo_task, demo_review]
   \<and> distinct (ids_of [demo_task, demo_review])
   \<and> tasks (snd (add_task OpenAI demo_env ''Ship''
        (main_loop OpenAI demo_env [Add ''Write spec'', Add ''Review''] first_run)))
     = JList ([demo_task, demo_review] @ [demo_ship])
   \<and> getitem demo_ship ''id'' = Inr (JInt 3)
   \<and> \<not> has_id demo_task 3 \<and> \<not> has_id demo_review 3
   \<and> distinct (ids_of [demo_task, demo_review, demo_ship])"
proof -
  let ?s = "main_loop OpenAI demo_env [Add ''Write spec'', Add ''Review''] first_run"
  have two: "tasks ?s = JList [demo_task, demo_review]"
    by code_simp
  have three: "tasks (snd (add_task OpenAI demo_env ''Ship'' ?s))
     = JList ([demo_task, demo_review] @ [demo_ship])"
    by code_simp
  from ids_never_collide [of OpenAI demo_env "[Add ''Write spec'', Add ''Review'']"] two
  have all: "numbered [demo_task, demo_review] \<and> distinct (ids_of [demo_task, demo_review])
     \<and> (\<forall>b' e' d t.
          tasks (snd (add_task b' e' d ?s)) = JList ([demo_task, demo_review] @ [t]) \<longrightarrow>
            getitem t ''id'' = Inr (JInt (int (length [demo_task, demo_review]) + 1))
            \<and> (\<forall>u\<in>set [demo_task, demo_review].
                  \<not> has_id u (int (length [demo_task, demo_review]) + 1))
            \<and> distinct (ids_of ([demo_task, demo_review] @ [t])))"
    by auto
  then have "getitem demo_ship ''id'' = Inr (JInt (int (length [demo_task, demo_review]) + 1))
            \<and> (\<forall>u\<in>set [demo_task, demo_review].
                  \<not> has_id u (int (length [demo_task, demo_review]) + 1))
            \<and> distinct (ids_of ([demo_task, demo_review] @ [demo_ship]))"
    using three by blast
  then have "getitem demo_ship ''id'' = Inr (JInt 3)
   \<and> \<not> has_id demo_task 3 \<and> \<not> has_id demo_review 3
   \<and> distinct (ids_of [demo_task, demo_review, demo_ship])"
    by simp
  with two three all show ?thesis by blast
qed

section \<open>Status and completion time over a session\<close>

lemma dispatch_step:
  assumes "tasks s = JList ts"
  shows "\<exists>ts'. tasks (dispatch b e c s) = JList ts' \<and> length ts \<le> length ts'
     \<and> (\<forall>i<length ts. ts' ! i = ts ! i
           \<or> (\<exists>n now. c = Complete n \<and> has_id (ts ! i) n \<and> ts' ! i = mark_completed now (ts ! i)))"
proof (cases c)
  case (Add d)
  from add_task_tasks [OF assms, of b e d] show ?thesis
  proof (elim disjE exE conjE)
    assume "tasks (snd (add_task b e d s)) = JList ts"
    with Add show ?thesis by simp
  next
    fix t a
    assume "tasks (snd (add_task b e d s)) = JList (ts @ [t])"
    with Add show ?thesis by (simp add: nth_append)
  qed
next
  case Recommend
  with assms show ?thesis by (simp add: insight_tasks)
next
  case Report
  with assms show ?thesis by (simp add: insight_tasks)
next
  case (Complete n)
  from complete_task_tasks [OF assms, of e n] show ?thesis
  proof (elim disjE exE conjE)
    assume "tasks (snd (complete_task e n s)) = JList ts"
    with Complete show ?thesis by simp
  next
    fix k
    assume fm: "first_match ts n k"
      and upd: "tasks (snd (complete_task e n s))
              = JList (ts[k := mark_completed (isoformat_now e (ticks s)) (ts ! k)])"
    let ?ts' = "ts[k := mark_completed (isoformat_now e (ticks s)) (ts ! k)]"
    have "?ts' ! i = ts ! i
           \<or> (\<exists>m now. c = Complete m \<and> has_id (ts ! i) m \<and> ?ts' ! i = mark_completed now (ts ! i))"
      if "i < length ts" for i
    proof (cases "i = k")
      case True
      with that Complete first_match_id [OF fm] show ?thesis by auto
    next
      case False
      then show ?thesis by simp
    qed
    with Complete upd show ?thesis by simp
  qed
qed

lemma status_of_mark_completed:
  "has_id t n \<Longrightarrow> status_of (mark_completed now t) = Inr (JStr ''completed'')"
  by (auto dest!: has_id_getitem simp: status_of_def getitem_mark_completed)

lemma main_loop_tasks:
  assumes "tasks s = JList ts" "i < length ts"
  shows "\<exists>ts'. tasks (main_loop b e cs s) = JList ts' \<and> length ts \<le> length ts'
     \<and> (status_of (ts ! i) = Inr (JStr ''completed'') \<longrightarrow>
          status_of (ts' ! i) = Inr (JStr ''completed''))
     \<and> ((\<forall>n. Complete n \<in> set cs \<longrightarrow> \<not> has_id (ts ! i) n) \<longrightarrow> ts' ! i = ts ! i)"
  using assms
proof (induction cs arbitrary: s ts)
  case Nil
  then show ?case by simp
next
  case (Cons c cs)
  from dispatch_step [OF Cons.prems(1), of b e c]
  obtain ts1 where ts1: "tasks (dispatch b e c s) = JList ts1" "length ts \<le> length ts1"
    and step: "ts1 ! i = ts ! i
       \<or> (\<exists>n now. c = Complete n \<and> has_id (ts ! i) n \<and> ts1 ! i = mark_completed now (ts ! i))"
    using Cons.prems(2) by blast
  from ts1 Cons.prems(2) have i1: "i < length ts1" by simp
  from Cons.IH [OF ts1(1) i1]
  obtain ts' where ts': "tasks (main_loop b e cs (dispatch b e c s)) = JList ts'"
      "length ts1 \<le> length ts'"
    and st: "status_of (ts1 ! i) = Inr (JStr ''completed'') \<longrightarrow>
          status_of (ts' ! i) = Inr (JStr ''completed'')"
    and same: "(\<forall>n. Complete n \<in> set cs \<longrightarrow> \<not> has_id (ts1 ! i) n) \<longrightarrow> ts' ! i = ts1 ! i"
    by blast
  have "status_of (ts ! i) = Inr (JStr ''completed'') \<longrightarrow>
          status_of (ts1 ! i) = Inr (JStr ''completed'')"
    using step by (auto simp: status_of_mark_completed)
  with st have A: "status_of (ts ! i) = Inr (JStr ''completed'') \<longrightarrow>
          status_of (ts' ! i) = Inr (JStr ''completed'')"
    by blast
  have B: "ts' ! i = ts ! i" if none: "\<forall>n. Complete n \<in> set (c # cs) \<longrightarrow> \<not> has_id (ts ! i) n"
  proof -
    from none step have "ts1 ! i = ts ! i" by auto
    with none same show ?thesis by simp
  qed
  from ts' ts1(2) A B show ?case by auto
qed

text \<open>
  Claim C3, as the code has it. Over every sequence of choices, a task that is
  \<open>completed\<close> stays \<open>completed\<close>, and a task for whose id the sequence contains no
  \<open>complete\<close> call is the same record afterwards, \<open>completed_at\<close> included; the
  collection only grows. But \<open>complete_task\<close> writes \<open>completed_at\<close> every time its loop
  stops at the task, pending or not: after the call the task has status \<open>completed\<close> and
  its \<open>completed_at\<close> is the reading of the clock at that call.
\<close>

theorem completed_stays_completed:
  assumes "tasks s = JList ts" and "i < length ts"
  shows "(\<exists>ts'. tasks (main_loop b e cs s) = JList ts' \<and> length ts \<le> length ts'
       \<and> (status_of (ts ! i) = Inr (JStr ''completed'') \<longrightarrow>
            status_of (ts' ! i) = Inr (JStr ''completed''))
       \<and> ((\<forall>n. Complete n \<in> set cs \<longrightarrow> \<not> has_id (ts ! i) n) \<longrightarrow> ts' ! i = ts ! i))
     \<and> (\<forall>n. first_match ts n i \<longrightarrow>
          (\<exists>ts'. tasks (snd (complete_task e n s)) = JList ts' \<and> length ts' = length ts
             \<and> status_of (ts' ! i) = Inr (JStr ''completed'')
             \<and> completed_at_of (ts' ! i) = Inr (JStr (isoformat_now e (ticks s)))))"
proof (intro conjI allI impI)
  show "\<exists>ts'. tasks (main_loop b e cs s) = JList ts' \<and> length ts \<le> length ts'
       \<and> (status_of (ts ! i) = Inr (JStr ''completed'') \<longrightarrow>
            status_of (ts' ! i) = Inr (JStr ''completed''))
       \<and> ((\<forall>n. Complete n \<in> set cs \<longrightarrow> \<not> has_id (ts ! i) n) \<longrightarrow> ts' ! i = ts ! i)"
    using assms by (rule main_loop_tasks)
next
  fix n
  assume fm: "first_match ts n i"
  let ?t = "mark_completed (isoformat_now e (ticks s)) (ts ! i)"
  from first_match_id [OF fm] obtain v where v: "getitem (ts ! i) ''id'' = Inr v"
    by blast
  then have "status_of ?t = Inr (JStr ''completed'')"
    and "completed_at_of ?t = Inr (JStr (isoformat_now e (ticks s)))"
    by (simp_all add: status_of_def completed_at_of_def getitem_mark_completed)
  with complete_task_hit_tasks(1) [OF assms(1) fm, of e] assms(2)
  show "\<exists>ts'. tasks (snd (complete_task e n s)) = JList ts' \<and> length ts' = length ts
             \<and> status_of (ts' ! i) = Inr (JStr ''completed'')
             \<and> completed_at_of (ts' ! i) = Inr (JStr (isoformat_now e (ticks s)))"
    by simp
qed

theorem completed_stays_completed_witness:
  "tasks demo_completed = JList [mark_completed ''2024-05-01T10:00:01'' demo_task]
   \<and> status_of (mark_completed ''2024-05-01T10:00:01'' demo_task) = Inr (JStr ''completed'')
   \<and> \<not> has_id (mark_completed ''2024-05-01T10:00:01'' demo_task) 2
   \<and> (\<exists>ts'. tasks (main_loop OpenAI demo_env [Recommend, Add ''Review'', Complete 2, Report]
                      demo_completed) = JList ts'
         \<and> 1 \<le> length ts'
         \<and> ts' ! 0 = mark_completed ''2024-05-01T10:00:01'' demo_task)
   \<and> first_match [mark_completed ''2024-05-01T10:00:01'' demo_task] 1 0
   \<and> (\<exists>ts'. tasks (snd (complete_task demo_env 1 demo_completed)) = JList ts'
         \<and> status_of (ts' ! 0) = Inr (JStr ''completed'')
         \<and> completed_at_of (ts' ! 0) = Inr (JStr ''2024-05-01T10:00:03''))"
proof -
  let ?t = "mark_completed ''2024-05-01T10:00:01'' demo_task"
  have h1: "tasks demo_completed = JList [?t]"
    by code_simp
  have h2: "0 < length [?t]"
    by simp
  have st: "status_of ?t = Inr (JStr ''completed'')" and id2: "\<not> has_id ?t 2"
    and fm: "first_match [?t] 1 0"
    by (simp_all add: status_of_def has_id_def first_match_def mark_completed_def demo_task_def)
  have clock: "isoformat_now demo_env (ticks demo_completed) = ''2024-05-01T10:00:03''"
    by code_simp
  note c3 = completed_stays_completed [OF h1 h2]
  from c3 [of OpenAI demo_env "[Recommend, Add ''Review'', Complete 2, Report]", THEN conjunct1]
    st id2
  have A: "\<exists>ts'. tasks (main_loop OpenAI demo_env [Recommend, Add ''Review'', Complete 2, Report]
                      demo_completed) = JList ts'
         \<and> 1 \<le> length ts' \<and> ts' ! 0 = ?t"
    by auto
  from c3 [of OpenAI demo_env "[]", THEN conjunct2, rule_format, OF fm] clock
  have B: "\<exists>ts'. tasks (snd (complete_task demo_env 1 demo_completed)) = JList ts'
         \<and> status_of (ts' ! 0) = Inr (JStr ''completed'')
         \<and> completed_at_of (ts' ! 0) = Inr (JStr ''2024-05-01T10:00:03'')"
    by auto
  from h1 st id2 fm A B show ?thesis by blast
qed

text \<open>
  The session that shows it: after adding and completing task 1 its \<open>completed_at\<close> is
  the second reading of the clock; completing task 1 once more replaces it by the
  fourth.
\<close>

theorem completed_at_overwritten:
  "demo_completed_again = dispatch OpenAI demo_env (Complete 1) demo_completed
   \<and> tasks demo_completed = JList [mark_completed ''2024-05-01T10:00:01'' demo_task]
   \<and> status_of (mark_completed ''2024-05-01T10:00:01'' demo_task) = Inr (JStr ''completed'')
   \<and> completed_at_of (mark_completed ''2024-05-01T10:00:01'' demo_task)
       = Inr (JStr ''2024-05-01T10:00:01'')
   \<and> tasks demo_completed_again = JList [mark_completed ''2024-05-01T10:00:03'' demo_task]
   \<and> completed_at_of (mark_completed ''2024-05-01T10:00:03'' demo_task)
       = Inr (JStr ''2024-05-01T10:00:03'')
   \<and> completed_at_of (mark_completed ''2024-05-01T10:00:03'' demo_task)
       \<noteq> completed_at_of (mark_completed ''2024-05-01T10:00:01'' demo_task)"
proof -
  have "tasks demo_completed = JList [mark_completed ''2024-05-01T10:00:01'' demo_task]"
    by code_simp
  moreover have
    "tasks demo_completed_again = JList [mark_completed ''2024-05-01T10:00:03'' demo_task]"
    by code_simp
  ultimately show ?thesis
    by (simp add: demo_completed_again_def status_of_def completed_at_of_def
          mark_completed_def demo_task_def)
qed

section \<open>The two bindings\<close>





end
